theory Spec2Isabelle
  imports Complex_Main "HOL-Library.Multiset"
begin

section \<open>Python values and exceptions\<close>

text \<open>
  The pipeline of \<^verbatim>\<open>main.py\<close> is three functions: the expansion loop of
  \<^verbatim>\<open>generate_random_numbers\<close>, \<^verbatim>\<open>calculate_statistics\<close> and
  \<^verbatim>\<open>chi_square_test\<close>. None of them defines an exception class or validates its
  arguments; the only failures are the exceptions raised by the Python built-ins and the
  NumPy routines they call. An exception is modelled by its class and its message (the
  part of the message that quotes the offending value is left out).
\<close>

datatype error =
  ValueError string | TypeError string | ZeroDivisionError string | OverflowError string

text \<open>
  A float64 is a real number or one of the IEEE special values; the sign of zero is not
  modelled. Python integers are unbounded (\<^typ>\<open>int\<close>); the int64 range of NumPy integer
  arrays and the size limits of lists and arrays are not modelled.
\<close>

datatype npfloat = Fin real | PInf | NInf | NaN

text \<open>
  Every float operation computes the exact real result and hands it to a rounding, which
  is a parameter of the model. Two roundings are used. With \<open>exact\<close> nothing is rounded
  and nothing overflows: this is the arithmetic in which the formulas of the
  specification are stated. With \<open>binary64\<close> the result is the nearest float64, ties to
  the even mantissa, and an infinity from \<open>2^1024 - 2^970\<close> on.
\<close>

type_synonym rounding = "real \<Rightarrow> npfloat"

definition exact :: rounding where
  "exact x = Fin x"

definition float_overflow_bound :: real where
  "float_overflow_bound = 2 ^ 1024 - 2 ^ 970"

text \<open>The number of binary digits of a natural number.\<close>

fun bit_length :: "nat \<Rightarrow> nat" where
  "bit_length n = (if n = 0 then 0 else Suc (bit_length (n div 2)))"

declare bit_length.simps [simp del]

text \<open>\<open>ilog2 a\<close> is the exponent \<open>e\<close> with \<open>2^e \<le> a < 2^(e + 1)\<close>, for positive \<open>a\<close>.\<close>

definition ilog2 :: "real \<Rightarrow> int" where
  "ilog2 a =
     (if 1 \<le> a then int (bit_length (nat \<lfloor>a\<rfloor>)) - 1
      else - int (bit_length (nat (\<lceil>1 / a\<rceil> - 1))))"

definition pow2 :: "int \<Rightarrow> real" where
  "pow2 e = (if 0 \<le> e then 2 ^ nat e else 1 / 2 ^ nat (- e))"

definition round_half_even :: "real \<Rightarrow> int" where
  "round_half_even y =
     (let f = \<lfloor>y\<rfloor>; d = y - of_int f
      in if d < 1 / 2 then f
         else if 1 / 2 < d then f + 1
         else if even f then f else f + 1)"

text \<open>
  A float64 has a mantissa of 53 bits and a least exponent of \<open>- 1074\<close>: the spacing of
  the floats around \<open>x\<close> is \<open>2^q\<close> with \<open>q = max (ilog2 \<bar>x\<bar> - 52) (- 1074)\<close>.
\<close>

definition binary64 :: rounding where
  "binary64 x =
     (if x = 0 then Fin 0
      else if float_overflow_bound \<le> \<bar>x\<bar> then (if 0 < x then PInf else NInf)
      else (let q = max (ilog2 \<bar>x\<bar> - 52) (- 1074)
            in Fin (of_int (round_half_even (x / pow2 q)) * pow2 q)))"

fun fadd :: "rounding \<Rightarrow> npfloat \<Rightarrow> npfloat \<Rightarrow> npfloat" where
  "fadd rnd (Fin x) (Fin y) = rnd (x + y)"
| "fadd rnd NaN _ = NaN"
| "fadd rnd _ NaN = NaN"
| "fadd rnd PInf NInf = NaN"
| "fadd rnd NInf PInf = NaN"
| "fadd rnd PInf _ = PInf"
| "fadd rnd _ PInf = PInf"
| "fadd rnd NInf _ = NInf"
| "fadd rnd _ NInf = NInf"

fun fneg :: "npfloat \<Rightarrow> npfloat" where
  "fneg (Fin x) = Fin (- x)"
| "fneg PInf = NInf"
| "fneg NInf = PInf"
| "fneg NaN = NaN"

definition fsub :: "rounding \<Rightarrow> npfloat \<Rightarrow> npfloat \<Rightarrow> npfloat" where
  "fsub rnd a b = fadd rnd a (fneg b)"

text \<open>The sign of a float: \<open>Some True\<close> is positive, \<open>Some False\<close> negative, \<open>None\<close> zero.\<close>

fun fsign :: "npfloat \<Rightarrow> bool option" where
  "fsign (Fin x) = (if x = 0 then None else Some (0 < x))"
| "fsign PInf = Some True"
| "fsign NInf = Some False"
| "fsign NaN = None"

fun fmul :: "rounding \<Rightarrow> npfloat \<Rightarrow> npfloat \<Rightarrow> npfloat" where
  "fmul rnd (Fin x) (Fin y) = rnd (x * y)"
| "fmul rnd NaN _ = NaN"
| "fmul rnd _ NaN = NaN"
| "fmul rnd a b =
     (case (fsign a, fsign b) of
        (Some s, Some t) \<Rightarrow> (if s = t then PInf else NInf)
      | _ \<Rightarrow> NaN)"

text \<open>
  NumPy's float division does not raise: a non-zero finite value divided by zero is an
  infinity, zero divided by zero is NaN (each with a RuntimeWarning only).
\<close>

fun fdiv :: "rounding \<Rightarrow> npfloat \<Rightarrow> npfloat \<Rightarrow> npfloat" where
  "fdiv rnd (Fin x) (Fin y) =
     (if y \<noteq> 0 then rnd (x / y)
      else if x = 0 then NaN
      else if 0 < x then PInf else NInf)"
| "fdiv rnd NaN _ = NaN"
| "fdiv rnd _ NaN = NaN"
| "fdiv rnd (Fin x) _ = Fin 0"
| "fdiv rnd a (Fin y) =
     (case fsign a of
        Some s \<Rightarrow> (if (0 \<le> y) = s then PInf else NInf)
      | None \<Rightarrow> NaN)"
| "fdiv rnd _ _ = NaN"

fun fsqrt :: "rounding \<Rightarrow> npfloat \<Rightarrow> npfloat" where
  "fsqrt rnd (Fin x) = (if x < 0 then NaN else rnd (sqrt x))"
| "fsqrt rnd PInf = PInf"
| "fsqrt rnd NInf = NaN"
| "fsqrt rnd NaN = NaN"

text \<open>
  \<^verbatim>\<open>2**num_qubits\<close>: Python gives an \<^verbatim>\<open>int\<close> for a non-negative exponent. For a
  negative exponent it converts base and exponent to float and gives a \<^verbatim>\<open>float\<close>:
  the conversion raises OverflowError for an exponent of magnitude \<open>2^1024 - 2^970\<close> or
  more, the power is 0.0 below the exponent \<open>- 1074\<close> of the least positive float64, and
  it is the exact power of two otherwise.
\<close>

datatype pynum = PyInt int | PyFloat npfloat

definition int_too_large :: error where
  "int_too_large = OverflowError ''int too large to convert to float''"

definition py_pow2 :: "int \<Rightarrow> error + pynum" where
  "py_pow2 e =
     (if 0 \<le> e then Inr (PyInt (2 ^ nat e))
      else if float_overflow_bound \<le> real_of_int (- e) then Inl int_too_large
      else if e < - 1074 then Inr (PyFloat (Fin 0))
      else Inr (PyFloat (Fin (1 / 2 ^ nat (- e)))))"

text \<open>
  \<^verbatim>\<open>max_value - 1\<close> and \<^verbatim>\<open>max_value / 2\<close> of \<^verbatim>\<open>calculate_statistics\<close>. The true
  division of two integers is correctly rounded and raises OverflowError when the
  quotient is beyond the float64 range; with a float on the left it is a float division.
\<close>

definition py_sub_int :: "rounding \<Rightarrow> pynum \<Rightarrow> int \<Rightarrow> pynum" where
  "py_sub_int rnd a b =
     (case a of
        PyInt i \<Rightarrow> PyInt (i - b)
      | PyFloat x \<Rightarrow> PyFloat (fsub rnd x (rnd (real_of_int b))))"

definition division_too_large :: error where
  "division_too_large = OverflowError ''integer division result too large for a float''"

definition division_by_zero :: error where
  "division_by_zero = ZeroDivisionError ''division by zero''"

definition float_division_by_zero :: error where
  "float_division_by_zero = ZeroDivisionError ''float division by zero''"

definition py_truediv_int :: "rounding \<Rightarrow> pynum \<Rightarrow> int \<Rightarrow> error + npfloat" where
  "py_truediv_int rnd a b =
     (case a of
        PyInt i \<Rightarrow>
          (if b = 0 then Inl division_by_zero
           else if float_overflow_bound \<le> \<bar>real_of_int i / real_of_int b\<bar>
           then Inl division_too_large
           else Inr (rnd (real_of_int i / real_of_int b)))
      | PyFloat x \<Rightarrow>
          (if b = 0 then Inl float_division_by_zero
           else Inr (fdiv rnd x (rnd (real_of_int b)))))"

section \<open>The built-in \<^verbatim>\<open>int(s, 2)\<close>\<close>

text \<open>
  \<^verbatim>\<open>int(binary_string, 2)\<close> is CPython's \<^verbatim>\<open>PyLong_FromString\<close> with base 2: it skips
  leading whitespace, takes an optional sign, an optional \<^verbatim>\<open>0b\<close> or \<^verbatim>\<open>0B\<close> prefix (which
  may be followed by one underscore), then at least one binary digit, with single
  underscores allowed between digits, then trailing whitespace, and raises ValueError on
  anything else. The length of the string is never compared with anything. Characters
  are the code points 0 to 255; the whitespace among them is 9 to 13, 32, 133 and 160.
\<close>

definition py_isspace :: "char \<Rightarrow> bool" where
  "py_isspace c =
     (let k = (of_char c :: nat)
      in (9 \<le> k \<and> k \<le> 13) \<or> k = 32 \<or> k = 133 \<or> k = 160)"

definition skip_sign :: "string \<Rightarrow> int \<times> string" where
  "skip_sign s =
     (case s of
        c # cs \<Rightarrow>
          (if c = CHR ''+'' then (1, cs)
           else if c = CHR ''-'' then (- 1, cs)
           else (1, s))
      | [] \<Rightarrow> (1, s))"

definition skip_prefix :: "string \<Rightarrow> string" where
  "skip_prefix s =
     (case s of
        c # d # cs \<Rightarrow>
          (if c = CHR ''0'' \<and> (d = CHR ''b'' \<or> d = CHR ''B'')
           then (case cs of u # us \<Rightarrow> (if u = CHR ''_'' then us else cs) | [] \<Rightarrow> cs)
           else s)
      | _ \<Rightarrow> s)"

text \<open>
  The digit loop of \<^verbatim>\<open>long_from_binary_base\<close>: \<open>prev\<close> is the character read last,
  the accumulator the value of the digits read so far. \<open>None\<close> is the loop's error
  return (two underscores in a row, or an underscore last); otherwise it returns the
  value and the unread rest of the string.
\<close>

fun scan_digits :: "char \<Rightarrow> int \<Rightarrow> string \<Rightarrow> (int \<times> string) option" where
  "scan_digits prev acc [] = (if prev = CHR ''_'' then None else Some (acc, []))"
| "scan_digits prev acc (c # cs) =
     (if c = CHR ''_'' then (if prev = CHR ''_'' then None else scan_digits c acc cs)
      else if c = CHR ''0'' then scan_digits c (2 * acc) cs
      else if c = CHR ''1'' then scan_digits c (2 * acc + 1) cs
      else if prev = CHR ''_'' then None
      else Some (acc, c # cs))"

definition invalid_literal :: error where
  "invalid_literal = ValueError ''invalid literal for int() with base 2''"

definition py_int_base2 :: "string \<Rightarrow> error + int" where
  "py_int_base2 s =
     (let (sign, s1) = skip_sign (dropWhile py_isspace s);
          start = skip_prefix s1
      in case start of
           [] \<Rightarrow> Inl invalid_literal
         | c # cs \<Rightarrow>
             (if c = CHR ''_'' then Inl invalid_literal
              else case scan_digits (CHR 0x00) 0 start of
                     None \<Rightarrow> Inl invalid_literal
                   | Some (v, rest) \<Rightarrow>
                       (if length rest = length start then Inl invalid_literal
                        else if dropWhile py_isspace rest \<noteq> [] then Inl invalid_literal
                        else Inr (sign * v))))"

section \<open>The expansion loop of \<^verbatim>\<open>generate_random_numbers\<close>\<close>

text \<open>\<^verbatim>\<open>[decimal_value] * count\<close>: a count of zero or less gives the empty list.\<close>

definition py_list_repeat :: "'a list \<Rightarrow> int \<Rightarrow> 'a list" where
  "py_list_repeat xs cnt = concat (replicate (nat cnt) xs)"

text \<open>
  \<^verbatim>\<open>counts.items()\<close> is traversed in the dictionary's order, so the frequency map is a
  list of (key, count) pairs. The loop extends \<^verbatim>\<open>random_numbers\<close> pair by pair and
  stops at the first key that \<^verbatim>\<open>int\<close> rejects.
\<close>

fun expand_loop :: "(string \<times> int) list \<Rightarrow> int list \<Rightarrow> error + int list" where
  "expand_loop [] random_numbers = Inr random_numbers"
| "expand_loop ((binary_string, cnt) # rest) random_numbers =
     (case py_int_base2 binary_string of
        Inl e \<Rightarrow> Inl e
      | Inr decimal_value \<Rightarrow>
          expand_loop rest (random_numbers @ py_list_repeat [decimal_value] cnt))"

text \<open>
  The simulator run (circuit, transpile, \<^verbatim>\<open>get_counts\<close>) is outside the pipeline; it is
  the parameter \<open>get_counts\<close>.
\<close>

definition generate_random_numbers ::
  "(int \<Rightarrow> int \<Rightarrow> (string \<times> int) list) \<Rightarrow> int \<Rightarrow> int \<Rightarrow> error + int list" where
  "generate_random_numbers get_counts num_qubits num_samples =
     expand_loop (get_counts num_qubits num_samples) []"

section \<open>The NumPy routines\<close>

text \<open>
  \<^verbatim>\<open>np.sum\<close> of a float array starts from zero and adds NumPy's pairwise sum of the
  array: fewer than 8 elements are added from left to right; up to 128 elements are
  added into 8 accumulators, block of 8 after block of 8, the accumulators are added
  as a tree and the elements left over are added one by one; a longer array is split in
  two at a multiple of 8.
\<close>

function add_blocks :: "rounding \<Rightarrow> npfloat list \<Rightarrow> npfloat list \<Rightarrow> npfloat list \<times> npfloat list" where
  "add_blocks rnd r a =
     (if length a < 8 then (r, a)
      else add_blocks rnd (map2 (fadd rnd) r (take 8 a)) (drop 8 a))"
  by pat_completeness auto
termination
  by (relation "measure (\<lambda>(rnd, r, a). length a)") auto

declare add_blocks.simps [simp del]

definition tree8 :: "rounding \<Rightarrow> npfloat list \<Rightarrow> npfloat" where
  "tree8 rnd r =
     fadd rnd
       (fadd rnd (fadd rnd (r ! 0) (r ! 1)) (fadd rnd (r ! 2) (r ! 3)))
       (fadd rnd (fadd rnd (r ! 4) (r ! 5)) (fadd rnd (r ! 6) (r ! 7)))"

function pairwise_sum :: "rounding \<Rightarrow> npfloat list \<Rightarrow> npfloat" where
  "pairwise_sum rnd a =
     (if length a < 8 then foldl (fadd rnd) (Fin 0) a
      else if length a \<le> 128 then
        (case add_blocks rnd (take 8 a) (drop 8 a) of
           (r, rest) \<Rightarrow> foldl (fadd rnd) (tree8 rnd r) rest)
      else fadd rnd
             (pairwise_sum rnd (take (length a div 2 - length a div 2 mod 8) a))
             (pairwise_sum rnd (drop (length a div 2 - length a div 2 mod 8) a)))"
  by pat_completeness auto
termination
  by (relation "measure (\<lambda>(rnd, a). length a)") auto

declare pairwise_sum.simps [simp del]

definition np_sum :: "rounding \<Rightarrow> npfloat list \<Rightarrow> npfloat" where
  "np_sum rnd a = fadd rnd (Fin 0) (pairwise_sum rnd a)"

text \<open>The conversion of an integer array to float64.\<close>

definition as_float :: "rounding \<Rightarrow> int list \<Rightarrow> npfloat list" where
  "as_float rnd xs = map (\<lambda>x. rnd (real_of_int x)) xs"

text \<open>\<^verbatim>\<open>np.mean\<close>: the sum divided by the number of items; on no items that is 0/0.\<close>

definition np_mean :: "rounding \<Rightarrow> int list \<Rightarrow> npfloat" where
  "np_mean rnd a = fdiv rnd (np_sum rnd (as_float rnd a)) (Fin (real (length a)))"

text \<open>
  \<^verbatim>\<open>np.std\<close> is the square root of NumPy's \<^verbatim>\<open>_var\<close>: the mean, the deviations from
  it, their squares, the sum of the squares, divided by \<^verbatim>\<open>max(N - ddof, 0)\<close>. The
  source passes no \<^verbatim>\<open>ddof\<close>, so the default 0 applies.
\<close>

definition np_var :: "rounding \<Rightarrow> int list \<Rightarrow> nat \<Rightarrow> npfloat" where
  "np_var rnd a ddof =
     (let rcount = length a;
          arrmean = fdiv rnd (np_sum rnd (as_float rnd a)) (Fin (real rcount));
          x = map (\<lambda>v. fsub rnd v arrmean) (as_float rnd a);
          x = map (\<lambda>d. fmul rnd d d) x;
          ret = np_sum rnd x;
          rcount = max (int rcount - int ddof) 0
      in fdiv rnd ret (Fin (real_of_int rcount)))"

definition np_std :: "rounding \<Rightarrow> int list \<Rightarrow> npfloat" where
  "np_std rnd a = fsqrt rnd (np_var rnd a 0)"

text \<open>\<^verbatim>\<open>np.min\<close> and \<^verbatim>\<open>np.max\<close> are reductions without identity: they raise on no items.\<close>

definition zero_size_minimum :: error where
  "zero_size_minimum =
     ValueError ''zero-size array to reduction operation minimum which has no identity''"

definition zero_size_maximum :: error where
  "zero_size_maximum =
     ValueError ''zero-size array to reduction operation maximum which has no identity''"

fun np_min :: "int list \<Rightarrow> error + int" where
  "np_min [] = Inl zero_size_minimum"
| "np_min (x # xs) = Inr (fold min xs x)"

fun np_max :: "int list \<Rightarrow> error + int" where
  "np_max [] = Inl zero_size_maximum"
| "np_max (x # xs) = Inr (fold max xs x)"

text \<open>
  \<^verbatim>\<open>np.bincount(list, minlength=m)\<close>: an empty list gives \<open>m\<close> zeros; a negative element
  is rejected; otherwise the result has \<open>max (largest element + 1) m\<close> counters, and the
  loop adds one to the counter of each element in turn.
\<close>

definition negative_elements :: error where
  "negative_elements = ValueError ''list argument must have no negative elements''"

definition negative_minlength :: error where
  "negative_minlength = ValueError ''minlength must not be negative''"

definition np_bincount :: "int list \<Rightarrow> int \<Rightarrow> error + nat list" where
  "np_bincount numbers minlength =
     (if minlength < 0 then Inl negative_minlength
      else case numbers of
             [] \<Rightarrow> Inr (replicate (nat minlength) 0)
           | x # xs \<Rightarrow>
               (let mn = fold min xs x; mx = fold max xs x
                in if mn < 0 then Inl negative_elements
                   else (let ans_size = max (mx + 1) minlength
                         in Inr (foldl (\<lambda>ans v. ans[nat v := ans ! nat v + 1])
                                   (replicate (nat ans_size) 0) numbers))))"

text \<open>
  An arithmetic operator on two one-dimensional arrays: elementwise when the lengths
  agree, broadcasting when one of them has length 1, ValueError otherwise.
\<close>

definition broadcast_error :: error where
  "broadcast_error = ValueError ''operands could not be broadcast together''"

definition np_binop ::
  "(npfloat \<Rightarrow> npfloat \<Rightarrow> npfloat) \<Rightarrow> npfloat list \<Rightarrow> npfloat list \<Rightarrow> error + npfloat list" where
  "np_binop f xs ys =
     (if length xs = length ys then Inr (map2 f xs ys)
      else if length ys = 1 then Inr (map (\<lambda>x. f x (hd ys)) xs)
      else if length xs = 1 then Inr (map (\<lambda>y. f (hd xs) y) ys)
      else Inl broadcast_error)"

section \<open>\<^verbatim>\<open>calculate_statistics\<close>\<close>

record stats_dict =
  mean :: npfloat
  theoretical_mean :: npfloat
  std_dev :: npfloat
  min_stat :: int
  max_stat :: int
  unique_values :: nat
  total_samples :: nat

text \<open>
  The function computes \<^verbatim>\<open>max_value\<close> and then evaluates the values of the dictionary
  literal in the order written: \<^verbatim>\<open>np.mean\<close>, \<^verbatim>\<open>max_value / 2\<close>, \<^verbatim>\<open>np.std\<close>,
  \<^verbatim>\<open>np.min\<close>, \<^verbatim>\<open>np.max\<close>, then the two lengths. \<open>calculate_statistics_run\<close> returns,
  with the result, the NumPy routines that were called, in the order of the calls, up
  to the return or the exception.
\<close>

datatype np_call = Np_mean | Np_std | Np_min | Np_max

definition calculate_statistics_run ::
  "rounding \<Rightarrow> int list \<Rightarrow> int \<Rightarrow> np_call list \<times> (error + stats_dict)" where
  "calculate_statistics_run rnd data num_qubits =
     (case py_pow2 num_qubits of
        Inl e \<Rightarrow> ([], Inl e)
      | Inr pw \<Rightarrow>
          (let max_value = py_sub_int rnd pw 1;
               v_mean = np_mean rnd data
           in case py_truediv_int rnd max_value 2 of
                Inl e \<Rightarrow> ([Np_mean], Inl e)
              | Inr v_theoretical \<Rightarrow>
                  (let v_std = np_std rnd data
                   in case np_min data of
                        Inl e \<Rightarrow> ([Np_mean, Np_std, Np_min], Inl e)
                      | Inr v_min \<Rightarrow>
                          (case np_max data of
                             Inl e \<Rightarrow> ([Np_mean, Np_std, Np_min, Np_max], Inl e)
                           | Inr v_max \<Rightarrow>
                               ([Np_mean, Np_std, Np_min, Np_max],
                                Inr \<lparr>mean = v_mean, theoretical_mean = v_theoretical,
                                     std_dev = v_std, min_stat = v_min, max_stat = v_max,
                                     unique_values = length (remdups data),
                                     total_samples = length data\<rparr>)))))"

definition calculate_statistics :: "rounding \<Rightarrow> int list \<Rightarrow> int \<Rightarrow> error + stats_dict" where
  "calculate_statistics rnd data num_qubits = snd (calculate_statistics_run rnd data num_qubits)"

text \<open>
  The fields of the record that are computed without any float sum: the theoretical
  mean, the minimum, the maximum and the two counts.
\<close>

definition order_free_fields :: "stats_dict \<Rightarrow> npfloat \<times> int \<times> int \<times> nat \<times> nat" where
  "order_free_fields r =
     (theoretical_mean r, min_stat r, max_stat r, unique_values r, total_samples r)"

section \<open>\<^verbatim>\<open>chi_square_test\<close>\<close>

text \<open>
  \<^verbatim>\<open>stats.chi2.cdf\<close> belongs to SciPy, not to the repository: it is the parameter \<open>cdf\<close>,
  taking the statistic and the degrees of freedom.

  When \<^verbatim>\<open>num_qubits\<close> is negative, \<^verbatim>\<open>max_value\<close> is a float: the division on the
  second line raises ZeroDivisionError when that float is 0.0; otherwise it succeeds and
  \<^verbatim>\<open>np.bincount\<close> then rejects the float \<^verbatim>\<open>minlength\<close> with a TypeError. When
  \<^verbatim>\<open>num_qubits\<close> is not negative, \<^verbatim>\<open>max_value\<close> is a positive integer and
  \<^verbatim>\<open>len(data)\<close> is the length of a list, so the true division
  \<^verbatim>\<open>len(data) / max_value\<close> raises neither ZeroDivisionError nor OverflowError, and
  \<^verbatim>\<open>np.full\<close> gets a valid length.
\<close>

definition float_minlength :: error where
  "float_minlength = TypeError ''float object cannot be interpreted as an integer''"

definition chi_square_test ::
  "rounding \<Rightarrow> (npfloat \<Rightarrow> int \<Rightarrow> npfloat) \<Rightarrow> int list \<Rightarrow> int \<Rightarrow> error + npfloat \<times> npfloat" where
  "chi_square_test rnd cdf data num_qubits =
     (case py_pow2 num_qubits of
        Inl e \<Rightarrow> Inl e
      | Inr (PyFloat max_value) \<Rightarrow>
          (if max_value = Fin 0 then Inl float_division_by_zero else Inl float_minlength)
      | Inr (PyInt max_value) \<Rightarrow>
          (let expected_freq = rnd (real (length data) / real_of_int max_value)
           in case np_bincount data max_value of
                Inl e \<Rightarrow> Inl e
              | Inr observed_freq \<Rightarrow>
                  (let expected_freq_array = replicate (nat max_value) expected_freq
                   in case np_binop (fsub rnd) (map (\<lambda>c. rnd (real c)) observed_freq)
                             expected_freq_array of
                        Inl e \<Rightarrow> Inl e
                      | Inr diff \<Rightarrow>
                          (case np_binop (fdiv rnd) (map (\<lambda>d. fmul rnd d d) diff)
                                  expected_freq_array of
                             Inl e \<Rightarrow> Inl e
                           | Inr terms \<Rightarrow>
                               (let chi_square_stat = np_sum rnd terms;
                                    degrees_of_freedom = max_value - 1;
                                    p_value = fsub rnd (Fin 1)
                                                (cdf chi_square_stat degrees_of_freedom)
                                in Inr (chi_square_stat, p_value))))))"

text \<open>
  The function that SciPy computes, used wherever a concrete \<open>cdf\<close> is needed: the
  chi-square distribution function with \<open>df\<close> degrees of freedom is the regularised lower
  incomplete gamma function at \<open>(df / 2, x / 2)\<close>, written here as its power series; it is
  0 at and below zero, and NaN when \<open>df\<close> is not positive or \<open>x\<close> is NaN.
  \<open>gamma_half k\<close> is the gamma function at \<open>k / 2\<close>.
\<close>

fun gamma_half :: "nat \<Rightarrow> real" where
  "gamma_half 0 = 0"
| "gamma_half (Suc 0) = sqrt pi"
| "gamma_half (Suc (Suc 0)) = 1"
| "gamma_half (Suc (Suc k)) = (real k / 2) * gamma_half k"

definition chi2_cdf :: "npfloat \<Rightarrow> int \<Rightarrow> npfloat" where
  "chi2_cdf x df =
     (if df \<le> 0 then NaN
      else case x of
             NaN \<Rightarrow> NaN
           | NInf \<Rightarrow> Fin 0
           | PInf \<Rightarrow> Fin 1
           | Fin r \<Rightarrow>
               (if r \<le> 0 then Fin 0
                else Fin ((r / 2) powr (real_of_int df / 2) * exp (- r / 2) *
                          (\<Sum>j. (r / 2) ^ j / gamma_half (nat df + 2 * j + 2)))))"

section \<open>Notions of the specification\<close>

text \<open>
  The specification speaks of bit patterns of \<open>n\<close> binary digits and of the decimal value
  of a pattern. These two notions are not in the source; they are defined here from the
  specification's words, to be compared with what \<open>py_int_base2\<close> computes.
\<close>

definition binary_digits :: "string \<Rightarrow> bool" where
  "binary_digits k = list_all (\<lambda>c. c = CHR ''0'' \<or> c = CHR ''1'') k"

definition bit_pattern :: "nat \<Rightarrow> string \<Rightarrow> bool" where
  "bit_pattern n k = (length k = n \<and> binary_digits k)"

definition add_bit :: "int \<Rightarrow> char \<Rightarrow> int" where
  "add_bit a c = 2 * a + (if c = CHR ''1'' then 1 else 0)"

definition pattern_value :: "string \<Rightarrow> int" where
  "pattern_value k = foldl add_bit 0 k"

section \<open>Properties of the parser and of the expansion loop\<close>

lemma scan_digits_binary:
  "binary_digits k \<Longrightarrow> k \<noteq> [] \<or> prev \<noteq> CHR ''_'' \<Longrightarrow>
   scan_digits prev acc k =
     Some (foldl add_bit acc k, [])"
proof (induction k arbitrary: prev acc)
  case Nil
  then show ?case by simp
next
  case (Cons c cs)
  from Cons.prems(1) have c: "c = CHR ''0'' \<or> c = CHR ''1''" and cs: "binary_digits cs"
    by (simp_all add: binary_digits_def)
  have "scan_digits c acc' cs =
      Some (foldl add_bit acc' cs, [])" for acc'
    using Cons.IH [OF cs, of c acc'] c by auto
  moreover have "add_bit acc c = (if c = CHR ''1'' then 2 * acc + 1 else 2 * acc)"
    by (simp add: add_bit_def)
  ultimately show ?case using c by auto
qed

lemma py_isspace_digit: "c = CHR ''0'' \<or> c = CHR ''1'' \<Longrightarrow> \<not> py_isspace c"
  by (auto simp: py_isspace_def)

lemma py_int_base2_pattern:
  assumes "binary_digits k" "k \<noteq> []"
  shows "py_int_base2 k = Inr (pattern_value k)"
proof -
  from assms obtain c cs where k: "k = c # cs" by (cases k) auto
  with assms have c: "c = CHR ''0'' \<or> c = CHR ''1''" and cs: "binary_digits cs"
    by (simp_all add: binary_digits_def)
  have drop: "dropWhile py_isspace k = k"
    using py_isspace_digit [OF c] by (simp add: k)
  have sign: "skip_sign k = (1, k)"
    using c by (auto simp: skip_sign_def k)
  have pre: "skip_prefix k = k"
  proof (cases cs)
    case Nil
    then show ?thesis by (simp add: skip_prefix_def k)
  next
    case (Cons d ds)
    with cs have "d = CHR ''0'' \<or> d = CHR ''1''" by (simp add: binary_digits_def)
    then show ?thesis by (auto simp: skip_prefix_def k Cons)
  qed
  have scan: "scan_digits (CHR 0x00) 0 k = Some (pattern_value k, [])"
    using scan_digits_binary [OF assms(1), of "CHR 0x00" 0] assms(2)
    by (simp add: pattern_value_def)
  have "hd k \<noteq> CHR ''_''" using c by (auto simp: k)
  with assms(2) show ?thesis
    unfolding py_int_base2_def drop sign
    by (simp add: pre scan list.case_eq_if)
qed

lemma foldl_bits_bounds:
  "binary_digits k \<Longrightarrow> 0 \<le> acc \<Longrightarrow>
   0 \<le> foldl add_bit acc k \<and> foldl add_bit acc k < (acc + 1) * 2 ^ length k"
proof (induction k arbitrary: acc)
  case Nil
  then show ?case by simp
next
  case (Cons c cs)
  from Cons.prems have cs: "binary_digits cs" by (simp add: binary_digits_def)
  define a where "a = add_bit acc c"
  have a0: "0 \<le> a" using Cons.prems(2) by (simp add: a_def add_bit_def)
  have le: "a + 1 \<le> 2 * (acc + 1)" by (simp add: a_def add_bit_def)
  from Cons.IH [OF cs a0]
  have lo: "0 \<le> foldl add_bit a cs" and hi: "foldl add_bit a cs < (a + 1) * 2 ^ length cs"
    by simp_all
  have "(a + 1) * 2 ^ length cs \<le> (2 * (acc + 1)) * 2 ^ length cs"
    using le by (intro mult_right_mono) simp_all
  with hi have "foldl add_bit a cs < (2 * (acc + 1)) * 2 ^ length cs"
    by (rule less_le_trans)
  also have "\<dots> = (acc + 1) * 2 ^ length (c # cs)"
    by simp
  finally show ?case using lo by (simp add: a_def)
qed

lemma pattern_value_bounds:
  "binary_digits k \<Longrightarrow> 0 \<le> pattern_value k \<and> pattern_value k \<le> 2 ^ length k - 1"
  using foldl_bits_bounds [of k 0] by (simp add: pattern_value_def)

lemma py_int_base2_error: "py_int_base2 k = Inl e \<Longrightarrow> e = invalid_literal"
  by (auto simp: py_int_base2_def Let_def split: prod.splits list.splits if_splits option.splits)

lemma py_list_repeat_single: "py_list_repeat [v] c = replicate (nat c) v"
  by (induction "nat c" arbitrary: c) (auto simp: py_list_repeat_def)

lemma expand_loop_parsed:
  "\<forall>p\<in>set fm. py_int_base2 (fst p) = Inr (val (fst p)) \<Longrightarrow>
   expand_loop fm acc = Inr (acc @ concat (map (\<lambda>p. replicate (nat (snd p)) (val (fst p))) fm))"
proof (induction fm arbitrary: acc)
  case Nil
  then show ?case by simp
next
  case (Cons p fm)
  obtain k c where p: "p = (k, c)" by (cases p)
  from Cons.prems have k: "py_int_base2 k = Inr (val k)" by (simp add: p)
  from Cons.prems have "\<forall>p\<in>set fm. py_int_base2 (fst p) = Inr (val (fst p))" by simp
  from Cons.IH [OF this] show ?case
    by (simp add: p k py_list_repeat_single)
qed

lemma expand_loop_error:
  "expand_loop fm acc = Inl e \<Longrightarrow>
   e = invalid_literal \<and> (\<exists>p\<in>set fm. py_int_base2 (fst p) = Inl invalid_literal)"
proof (induction fm arbitrary: acc)
  case Nil
  then show ?case by simp
next
  case (Cons p fm)
  obtain k c where p: "p = (k, c)" by (cases p)
  show ?case
  proof (cases "py_int_base2 k")
    case (Inl e')
    with Cons.prems have "e = e'" by (simp add: p)
    with Inl py_int_base2_error [of k e'] show ?thesis by (simp add: p)
  next
    case (Inr v)
    with Cons.prems have "expand_loop fm (acc @ py_list_repeat [v] c) = Inl e"
      by (simp add: p)
    from Cons.IH [OF this] show ?thesis by auto
  qed
qed

lemma expand_loop_unparseable:
  "\<exists>p\<in>set fm. py_int_base2 (fst p) = Inl e \<Longrightarrow> expand_loop fm acc = Inl invalid_literal"
proof (induction fm arbitrary: acc)
  case Nil
  then show ?case by simp
next
  case (Cons p fm)
  obtain k c where p: "p = (k, c)" by (cases p)
  show ?case
  proof (cases "py_int_base2 k")
    case (Inl e')
    with py_int_base2_error [of k e'] show ?thesis by (simp add: p)
  next
    case (Inr v)
    with Cons.prems have "\<exists>p\<in>set fm. py_int_base2 (fst p) = Inl e" by (auto simp: p)
    from Cons.IH [OF this] Inr show ?thesis by (simp add: p)
  qed
qed

lemma length_concat_replicate:
  "int (length (concat (map (\<lambda>p. replicate (nat (snd p)) (f p)) fm))) =
   (\<Sum>p\<leftarrow>fm. max (snd p) 0)"
  by (induction fm) auto

section \<open>Exact arithmetic\<close>

text \<open>
  With the rounding \<open>exact\<close> float addition is associative and commutative, so the
  pairwise sum is the plain sum of the elements.
\<close>

lemma fadd_exact_Fin: "fadd exact (Fin a) (Fin b) = Fin (a + b)"
  by (simp add: exact_def)

lemma fsub_Fin: "fsub exact (Fin a) (Fin b) = Fin (a - b)"
  by (simp add: fsub_def exact_def)

lemma fmul_exact_Fin: "fmul exact (Fin a) (Fin b) = Fin (a * b)"
  by (simp add: exact_def)

lemma fadd_exact_assoc: "fadd exact (fadd exact a b) c = fadd exact a (fadd exact b c)"
  by (cases a; cases b; cases c) (simp_all add: exact_def)

lemma fadd_exact_commute: "fadd exact a b = fadd exact b a"
  by (cases a; cases b) (simp_all add: exact_def)

lemma fadd_exact_zero: "fadd exact (Fin 0) a = a"
  by (cases a) (simp_all add: exact_def)

lemma foldl_fadd_exact: "foldl (fadd exact) a xs = fadd exact a (foldl (fadd exact) (Fin 0) xs)"
proof (induction xs arbitrary: a)
  case Nil
  show ?case using fadd_exact_commute [of a "Fin 0"] by (simp add: fadd_exact_zero)
next
  case (Cons x xs)
  show ?case
    using Cons.IH [of "fadd exact a x"] Cons.IH [of "fadd exact (Fin 0) x"]
    by (simp add: fadd_exact_assoc fadd_exact_zero)
qed

lemma foldl_fadd_exact_append:
  "foldl (fadd exact) (Fin 0) (xs @ ys) =
   fadd exact (foldl (fadd exact) (Fin 0) xs) (foldl (fadd exact) (Fin 0) ys)"
  using foldl_fadd_exact [of "foldl (fadd exact) (Fin 0) xs" ys] by simp

lemma foldl_fadd_exact_map2:
  "length r = length b \<Longrightarrow>
   foldl (fadd exact) (Fin 0) (map2 (fadd exact) r b) =
   fadd exact (foldl (fadd exact) (Fin 0) r) (foldl (fadd exact) (Fin 0) b)"
proof (induction r b rule: list_induct2)
  case Nil
  show ?case by (simp add: exact_def)
next
  case (Cons x xs y ys)
  have "foldl (fadd exact) (Fin 0) (map2 (fadd exact) (x # xs) (y # ys)) =
      fadd exact (fadd exact x y) (foldl (fadd exact) (Fin 0) (map2 (fadd exact) xs ys))"
    using foldl_fadd_exact [of "fadd exact x y" "map2 (fadd exact) xs ys"]
    by (simp add: fadd_exact_zero)
  also have "\<dots> = fadd exact (fadd exact x y)
      (fadd exact (foldl (fadd exact) (Fin 0) xs) (foldl (fadd exact) (Fin 0) ys))"
    by (simp only: Cons.IH)
  also have "\<dots> = fadd exact (fadd exact x (foldl (fadd exact) (Fin 0) xs))
      (fadd exact y (foldl (fadd exact) (Fin 0) ys))"
    by (metis fadd_exact_assoc fadd_exact_commute)
  also have "\<dots> = fadd exact (foldl (fadd exact) (Fin 0) (x # xs))
      (foldl (fadd exact) (Fin 0) (y # ys))"
    using foldl_fadd_exact [of x xs] foldl_fadd_exact [of y ys]
    by (simp add: fadd_exact_zero)
  finally show ?case .
qed

lemma add_blocks_exact:
  "length r = 8 \<Longrightarrow> add_blocks exact r a = (r', rest) \<Longrightarrow>
   length r' = 8 \<and>
   fadd exact (foldl (fadd exact) (Fin 0) r') (foldl (fadd exact) (Fin 0) rest) =
   fadd exact (foldl (fadd exact) (Fin 0) r) (foldl (fadd exact) (Fin 0) a)"
proof (induction exact r a arbitrary: r' rest rule: add_blocks.induct)
  case (1 r a)
  show ?case
  proof (cases "length a < 8")
    case True
    with "1.prems" show ?thesis by (simp add: add_blocks.simps)
  next
    case False
    let ?r = "map2 (fadd exact) r (take 8 a)"
    from False "1.prems"(1) have len: "length r = length (take 8 a)" by simp
    then have len8: "length ?r = 8" using "1.prems"(1) by simp
    from False "1.prems"(2) have run: "add_blocks exact ?r (drop 8 a) = (r', rest)"
      by (simp add: add_blocks.simps [of exact r a])
    from "1.hyps" [OF False len8 run]
    have "length r' = 8" and
      "fadd exact (foldl (fadd exact) (Fin 0) r') (foldl (fadd exact) (Fin 0) rest) =
       fadd exact (foldl (fadd exact) (Fin 0) ?r) (foldl (fadd exact) (Fin 0) (drop 8 a))"
      by simp_all
    moreover have "fadd exact (foldl (fadd exact) (Fin 0) ?r) (foldl (fadd exact) (Fin 0) (drop 8 a)) =
       fadd exact (foldl (fadd exact) (Fin 0) r) (foldl (fadd exact) (Fin 0) a)"
      using foldl_fadd_exact_append [of "take 8 a" "drop 8 a"]
      by (simp add: foldl_fadd_exact_map2 [OF len] fadd_exact_assoc)
    ultimately show ?thesis by simp
  qed
qed

lemma tree8_exact:
  assumes "length r = 8"
  shows "tree8 exact r = foldl (fadd exact) (Fin 0) r"
proof -
  from assms obtain a b c d e f g h where "r = [a, b, c, d, e, f, g, h]"
    by (auto simp: length_Suc_conv eval_nat_numeral)
  then show ?thesis
    by (simp add: tree8_def fadd_exact_assoc fadd_exact_zero)
qed

lemma pairwise_sum_exact: "pairwise_sum exact a = foldl (fadd exact) (Fin 0) a"
proof (induction exact a rule: pairwise_sum.induct)
  case (1 a)
  show ?case
  proof (cases "length a < 8")
    case True
    then show ?thesis by (simp add: pairwise_sum.simps)
  next
    case False
    show ?thesis
    proof (cases "length a \<le> 128")
      case True
      obtain r rest where run: "add_blocks exact (take 8 a) (drop 8 a) = (r, rest)"
        by (cases "add_blocks exact (take 8 a) (drop 8 a)")
      from False have "length (take 8 a) = 8" by simp
      from add_blocks_exact [OF this run]
      have r8: "length r = 8" and
        tot: "fadd exact (foldl (fadd exact) (Fin 0) r) (foldl (fadd exact) (Fin 0) rest) =
              foldl (fadd exact) (Fin 0) a"
        using foldl_fadd_exact_append [of "take 8 a" "drop 8 a"] by simp_all
      have "pairwise_sum exact a = foldl (fadd exact) (tree8 exact r) rest"
        using False True by (simp add: pairwise_sum.simps [of exact a] run)
      also have "\<dots> = fadd exact (tree8 exact r) (foldl (fadd exact) (Fin 0) rest)"
        by (rule foldl_fadd_exact)
      finally show ?thesis by (simp add: tree8_exact [OF r8] tot)
    next
      case big: False
      let ?k = "length a div 2 - length a div 2 mod 8"
      from "1.hyps" [OF False big]
      have "pairwise_sum exact (take ?k a) = foldl (fadd exact) (Fin 0) (take ?k a)"
        and "pairwise_sum exact (drop ?k a) = foldl (fadd exact) (Fin 0) (drop ?k a)"
        by simp_all
      with False big show ?thesis
        using foldl_fadd_exact_append [of "take ?k a" "drop ?k a"]
        by (simp add: pairwise_sum.simps [of exact a])
    qed
  qed
qed

lemma np_sum_exact: "np_sum exact a = foldl (fadd exact) (Fin 0) a"
  by (simp add: np_sum_def pairwise_sum_exact fadd_exact_zero)

lemma foldl_fadd_Fin: "foldl (fadd exact) (Fin a) (map Fin ys) = Fin (a + sum_list ys)"
  by (induction ys arbitrary: a) (simp_all add: exact_def add.assoc)

lemma np_sum_map_Fin: "np_sum exact (map (\<lambda>x. Fin (f x)) xs) = Fin (\<Sum>x\<leftarrow>xs. f x)"
  using foldl_fadd_Fin [of 0 "map f xs"] by (simp add: np_sum_exact comp_def)

lemma as_float_exact: "as_float exact a = map (\<lambda>x. Fin (real_of_int x)) a"
  by (simp add: as_float_def exact_def)

lemma np_sum_as_float: "np_sum exact (as_float exact a) = Fin (real_of_int (sum_list a))"
  unfolding as_float_exact np_sum_map_Fin by (induction a) simp_all

lemma np_mean_eq:
  "np_mean exact a =
     (if a = [] then NaN else Fin (real_of_int (sum_list a) / real (length a)))"
  by (simp add: np_mean_def np_sum_as_float exact_def)

lemma np_var_eq:
  assumes "a \<noteq> []"
  shows "np_var exact a ddof =
    fdiv exact (Fin (\<Sum>x\<leftarrow>a. (real_of_int x - real_of_int (sum_list a) / real (length a))\<^sup>2))
         (Fin (real_of_int (max (int (length a) - int ddof) 0)))"
proof -
  have "map (\<lambda>d. fmul exact d d)
          (map (\<lambda>v. fsub exact v (Fin m)) (as_float exact a)) =
        map (\<lambda>x. Fin ((real_of_int x - m)\<^sup>2)) a" for m
    by (simp add: as_float_exact fsub_Fin exact_def power2_eq_square)
  with assms show ?thesis
    by (simp add: np_var_def Let_def np_sum_as_float np_sum_map_Fin exact_def)
qed

lemma np_std_eq:
  assumes "a \<noteq> []"
  shows "np_std exact a =
    Fin (sqrt ((\<Sum>x\<leftarrow>a. (real_of_int x - real_of_int (sum_list a) / real (length a))\<^sup>2)
               / real (length a)))"
proof -
  have "0 \<le> (\<Sum>x\<leftarrow>a. (real_of_int x - real_of_int (sum_list a) / real (length a))\<^sup>2)"
    by (rule sum_list_nonneg) auto
  then have "\<not> (\<Sum>x\<leftarrow>a. (real_of_int x - real_of_int (sum_list a) / real (length a))\<^sup>2)
               / real (length a) < 0"
    by (simp add: not_less)
  with assms show ?thesis
    by (simp add: np_std_def np_var_eq exact_def)
qed



section \<open>Properties of the reductions and of \<^verbatim>\<open>np.bincount\<close>\<close>

lemma np_min_eq: "np_min a = (if a = [] then Inl zero_size_minimum else Inr (Min (set a)))"
  using Min.set_eq_fold [of "hd a" "tl a"] by (cases a) simp_all

lemma np_max_eq: "np_max a = (if a = [] then Inl zero_size_maximum else Inr (Max (set a)))"
  using Max.set_eq_fold [of "hd a" "tl a"] by (cases a) simp_all

lemma sum_list_mset_cong:
  fixes f :: "'a \<Rightarrow> 'b::comm_monoid_add"
  shows "mset xs = mset ys \<Longrightarrow> (\<Sum>x\<leftarrow>xs. f x) = (\<Sum>x\<leftarrow>ys. f x)"
  by (metis mset_map sum_mset_sum_list)

lemma bincount_loop:
  "\<forall>v\<in>set xs. 0 \<le> v \<and> nat v < length ans \<Longrightarrow>
   foldl (\<lambda>ans v. ans[nat v := ans ! nat v + 1]) ans xs =
     map (\<lambda>i. ans ! i + count_list xs (int i)) [0..<length ans]"
proof (induction xs arbitrary: ans)
  case Nil
  then show ?case by (simp add: map_nth)
next
  case (Cons x xs)
  let ?ans = "ans[nat x := ans ! nat x + 1]"
  from Cons.prems have x: "0 \<le> x" "nat x < length ans" by simp_all
  from Cons.prems have "\<forall>v\<in>set xs. 0 \<le> v \<and> nat v < length ?ans" by simp
  from Cons.IH [OF this]
  have "foldl (\<lambda>ans v. ans[nat v := ans ! nat v + 1]) ?ans xs =
      map (\<lambda>i. ?ans ! i + count_list xs (int i)) [0..<length ans]"
    by simp
  also have "\<dots> = map (\<lambda>i. ans ! i + count_list (x # xs) (int i)) [0..<length ans]"
    using x by (auto simp: nth_list_update)
  finally show ?case by simp
qed

lemma np_bincount_counts:
  "np_bincount xs m =
     (if m < 0 then Inl negative_minlength
      else if xs \<noteq> [] \<and> Min (set xs) < 0 then Inl negative_elements
      else Inr (map (\<lambda>i. count_list xs (int i))
                  [0..<nat (if xs = [] then m else max (Max (set xs) + 1) m)]))"
proof (cases xs)
  case Nil
  then show ?thesis by (simp add: np_bincount_def map_replicate_trivial)
next
  case (Cons y ys)
  have mn: "fold min ys y = Min (set xs)" and mx: "fold max ys y = Max (set xs)"
    by (simp_all add: Cons Min.set_eq_fold Max.set_eq_fold del: set_simps)
  show ?thesis
  proof (cases "m < 0 \<or> Min (set xs) < 0")
    case True
    then show ?thesis by (auto simp: np_bincount_def Cons mn [unfolded Cons] mx [unfolded Cons])
  next
    case False
    define L where "L = nat (max (Max (set xs) + 1) m)"
    have "\<forall>v\<in>set xs. 0 \<le> v \<and> nat v < L"
    proof
      fix v assume v: "v \<in> set xs"
      then have "Min (set xs) \<le> v" "v \<le> Max (set xs)" by simp_all
      with False show "0 \<le> v \<and> nat v < L" by (auto simp: L_def)
    qed
    then have "\<forall>v\<in>set xs. 0 \<le> v \<and> nat v < length (replicate L (0::nat))" by simp
    from bincount_loop [OF this]
    have "foldl (\<lambda>ans v. ans[nat v := ans ! nat v + 1]) (replicate L 0) xs =
        map (\<lambda>i. count_list xs (int i)) [0..<L]"
      by simp
    with False show ?thesis
      by (simp add: np_bincount_def mn [unfolded Cons] mx [unfolded Cons] L_def Cons Let_def
          del: set_simps foldl_Cons count_list.simps)
  qed
qed

lemma count_list_mset: "mset xs = mset ys \<Longrightarrow> count_list xs = count_list ys"
  by (metis count_mset ext)

lemma np_bincount_mset:
  assumes "mset xs = mset ys"
  shows "np_bincount xs m = np_bincount ys m"
proof -
  from assms have "length xs = length ys" by (rule mset_eq_length)
  then have emp: "xs = [] \<longleftrightarrow> ys = []" by auto
  from assms have set: "set xs = set ys" by (rule mset_eq_setD)
  show ?thesis
    unfolding np_bincount_counts count_list_mset [OF assms] set emp ..
qed

lemma chi_square_test_mset:
  assumes "mset xs = mset ys"
  shows "chi_square_test rnd cdf xs n = chi_square_test rnd cdf ys n"
  unfolding chi_square_test_def np_bincount_mset [OF assms] mset_eq_length [OF assms] ..

lemma map2_replicate:
  "map2 f (map g xs) (replicate (length xs) e) = map (\<lambda>x. f (g x) e) xs"
  by (induction xs) simp_all

lemma counts_cover:
  assumes len: "length data = 8"
    and cnt: "count_list data 0 = 2" "count_list data 1 = 2"
             "count_list data 2 = 2" "count_list data 3 = 2"
  shows "set data \<subseteq> {0, 1, 2, 3 :: int}"
proof
  fix x assume x: "x \<in> set data"
  show "x \<in> {0, 1, 2, 3}"
  proof (rule ccontr)
    assume out: "x \<notin> {0, 1, 2, 3}"
    have "sum (count_list data) (set data \<union> {0, 1, 2, 3}) = length data"
      by (rule sum_count_set) auto
    moreover have "sum (count_list data) {0, 1, 2, 3, x} \<le>
        sum (count_list data) (set data \<union> {0, 1, 2, 3})"
      using x by (intro sum_mono2) auto
    moreover have "sum (count_list data) {0, 1, 2, 3, x} = 8 + count_list data x"
      using out cnt by simp
    moreover have "0 < count_list data x"
      using x count_list_0_iff [of data x] by auto
    ultimately show False using len by simp
  qed
qed

section \<open>Properties of \<^verbatim>\<open>calculate_statistics\<close> and \<^verbatim>\<open>chi_square_test\<close>\<close>

lemma bound_large: "(2::real) ^ 1023 \<le> float_overflow_bound"
  by (simp add: float_overflow_bound_def)

lemma py_pow2_nonneg: "0 \<le> n \<Longrightarrow> py_pow2 n = Inr (PyInt (2 ^ nat n))"
  by (simp add: py_pow2_def)

lemma py_pow2_float:
  assumes "- 1074 \<le> n" and "n < 0"
  shows "py_pow2 n = Inr (PyFloat (Fin (1 / 2 ^ nat (- n))))"
proof -
  from assms have "real_of_int (- n) \<le> 1074" by simp
  moreover have "(1074::real) < float_overflow_bound"
    by (simp add: float_overflow_bound_def)
  ultimately have "\<not> float_overflow_bound \<le> real_of_int (- n)" by linarith
  with assms show ?thesis by (simp add: py_pow2_def)
qed



lemma theoretical_mean_int:
  assumes "0 \<le> n" and "n \<le> 1024"
  shows "py_truediv_int exact (py_sub_int exact (PyInt (2 ^ nat n)) 1) 2 =
         Inr (Fin ((2 powi n - 1) / 2))"
proof -
  from assms have "nat n \<le> 1024" by simp
  then have "(2::real) ^ nat n \<le> 2 ^ 1024" by (intro power_increasing) simp_all
  then have "(2 ^ nat n - 1) / 2 < (2::real) ^ 1023" by simp
  with bound_large have "(2 ^ nat n - 1) / 2 < float_overflow_bound" by linarith
  moreover have "0 \<le> ((2::real) ^ nat n - 1) / 2" by simp
  ultimately have "\<not> float_overflow_bound \<le> \<bar>((2::real) ^ nat n - 1) / 2\<bar>" by simp
  with assms(1) show ?thesis
    by (simp add: py_truediv_int_def py_sub_int_def exact_def power_int_def)
qed


lemma theoretical_mean_float:
  assumes "- 1074 \<le> n" and "n < 0"
  shows "py_truediv_int exact (py_sub_int exact (PyFloat (Fin (1 / 2 ^ nat (- n)))) 1) 2 =
         Inr (Fin ((2 powi n - 1) / 2))"
  using assms
  by (simp add: py_truediv_int_def py_sub_int_def exact_def fsub_def power_int_def
      inverse_eq_divide power_one_over)


lemma calculate_statistics_run_nonempty:
  assumes "data \<noteq> []" and "- 1074 \<le> n" and "n \<le> 1024"
  shows "calculate_statistics_run exact data n =
    ([Np_mean, Np_std, Np_min, Np_max],
     Inr \<lparr>mean = np_mean exact data, theoretical_mean = Fin ((2 powi n - 1) / 2),
          std_dev = np_std exact data, min_stat = Min (set data), max_stat = Max (set data),
          unique_values = length (remdups data), total_samples = length data\<rparr>)"
proof (cases "0 \<le> n")
  case True
  with assms show ?thesis
    by (simp add: calculate_statistics_run_def py_pow2_nonneg theoretical_mean_int
        np_min_eq np_max_eq Let_def)
next
  case False
  with assms show ?thesis
    by (simp add: calculate_statistics_run_def py_pow2_float theoretical_mean_float
        np_min_eq np_max_eq Let_def)
qed



lemma np_mean_std_mset:
  assumes "mset xs = mset ys"
  shows "np_mean exact xs = np_mean exact ys \<and> np_std exact xs = np_std exact ys"
proof -
  from assms have len: "length xs = length ys" by (rule mset_eq_length)
  then have emp: "xs = [] \<longleftrightarrow> ys = []" by auto
  from assms have sum: "sum_list xs = sum_list ys"
    using sum_list_mset_cong [of xs ys "\<lambda>x. x"] by simp
  have mean: "np_mean exact xs = np_mean exact ys"
    by (simp add: np_mean_eq len sum emp)
  have std: "np_std exact xs = np_std exact ys"
  proof (cases "xs = []")
    case True
    with emp show ?thesis by simp
  next
    case False
    with emp have "ys \<noteq> []" by simp
    with False show ?thesis
      by (simp add: np_std_eq len sum
          sum_list_mset_cong [OF assms, of "\<lambda>x. (real_of_int x - real_of_int (sum_list ys) / real (length ys))\<^sup>2"])
  qed
  from mean std show ?thesis ..
qed

lemma calculate_statistics_mset_exact:
  assumes "mset xs = mset ys"
  shows "calculate_statistics exact xs n = calculate_statistics exact ys n"
proof -
  from assms have len: "length xs = length ys" by (rule mset_eq_length)
  then have emp: "xs = [] \<longleftrightarrow> ys = []" by auto
  from assms have set: "set xs = set ys" by (rule mset_eq_setD)
  have uniq: "length (remdups xs) = length (remdups ys)"
    by (simp add: length_remdups_card_conv set)
  from np_mean_std_mset [OF assms]
  have ms: "np_mean exact xs = np_mean exact ys" "np_std exact xs = np_std exact ys"
    by simp_all
  show ?thesis
    unfolding calculate_statistics_def calculate_statistics_run_def np_min_eq np_max_eq
      ms uniq len set emp ..
qed

lemma calculate_statistics_mset_fields:
  assumes "mset xs = mset ys"
  shows "map_sum id order_free_fields (calculate_statistics rnd xs n) =
         map_sum id order_free_fields (calculate_statistics rnd ys n)"
proof -
  from assms have len: "length xs = length ys" by (rule mset_eq_length)
  then have emp: "xs = [] \<longleftrightarrow> ys = []" by auto
  from assms have set: "set xs = set ys" by (rule mset_eq_setD)
  have uniq: "length (remdups xs) = length (remdups ys)"
    by (simp add: length_remdups_card_conv set)
  show ?thesis
    unfolding calculate_statistics_def calculate_statistics_run_def np_min_eq np_max_eq
      uniq len set emp
    by (simp add: Let_def order_free_fields_def split: sum.splits)
qed

lemma chi_square_in_range:
  assumes n: "0 \<le> n" and ne: "data \<noteq> []"
    and rng: "\<forall>x\<in>set data. 0 \<le> x \<and> x \<le> 2 ^ nat n - 1"
  shows "chi_square_test exact cdf data n =
    Inr (Fin (\<Sum>i<2 ^ nat n. (real (count_list data (int i)) - real (length data) / 2 ^ nat n)\<^sup>2
                  / (real (length data) / 2 ^ nat n)),
         fsub exact (Fin 1)
           (cdf (Fin (\<Sum>i<2 ^ nat n. (real (count_list data (int i)) - real (length data) / 2 ^ nat n)\<^sup>2
                  / (real (length data) / 2 ^ nat n)))
              (2 ^ nat n - 1)))"
proof -
  define K :: nat where "K = 2 ^ nat n"
  define E :: real where "E = real (length data) / real K"
  have E: "E \<noteq> 0" using ne by (simp add: E_def K_def)
  have pow: "py_pow2 n = Inr (PyInt (int K))" using n by (simp add: py_pow2_nonneg K_def)
  from ne have "Min (set data) \<in> set data" "Max (set data) \<in> set data"
    by simp_all
  with rng have "\<not> Min (set data) < 0" "Max (set data) + 1 \<le> int K"
    by (fastforce simp: K_def)+
  with ne have bins: "np_bincount data (int K) = Inr (map (\<lambda>i. count_list data (int i)) [0..<K])"
    by (simp add: np_bincount_counts max_def)
  have diff: "np_binop (fsub exact)
                (map (\<lambda>c. exact (real c)) (map (\<lambda>i. count_list data (int i)) [0..<K]))
                (replicate K (Fin E)) =
              Inr (map (\<lambda>i. Fin (real (count_list data (int i)) - E)) [0..<K])"
    using map2_replicate [of "fsub exact" "\<lambda>i. Fin (real (count_list data (int i)))" "[0..<K]" "Fin E"]
    by (simp add: np_binop_def fsub_Fin comp_def exact_def)
  have terms: "np_binop (fdiv exact) (map (\<lambda>d. fmul exact d d)
                   (map (\<lambda>i. Fin (real (count_list data (int i)) - E)) [0..<K]))
                (replicate K (Fin E)) =
              Inr (map (\<lambda>i. Fin ((real (count_list data (int i)) - E)\<^sup>2 / E)) [0..<K])"
    using map2_replicate [of "fdiv exact" "\<lambda>i. Fin ((real (count_list data (int i)) - E)\<^sup>2)" "[0..<K]" "Fin E"] E
    by (simp add: np_binop_def comp_def power2_eq_square exact_def)
  have total: "np_sum exact (map (\<lambda>i. Fin ((real (count_list data (int i)) - E)\<^sup>2 / E)) [0..<K]) =
      Fin (\<Sum>i<K. (real (count_list data (int i)) - E)\<^sup>2 / E)"
    by (simp add: np_sum_map_Fin interv_sum_list_conv_sum_set_nat atLeast0LessThan)
  have ex: "exact (real (length data) / real K) = Fin E"
    by (simp add: exact_def E_def)
  have "chi_square_test exact cdf data n =
      Inr (Fin (\<Sum>i<K. (real (count_list data (int i)) - E)\<^sup>2 / E),
           fsub exact (Fin 1) (cdf (Fin (\<Sum>i<K. (real (count_list data (int i)) - E)\<^sup>2 / E)) (int K - 1)))"
    unfolding chi_square_test_def pow
    by (simp add: bins ex diff terms total Let_def del: map_map)
  then show ?thesis by (simp add: K_def E_def)
qed







section \<open>Rounding to float64\<close>

text \<open>
  The standard deviation of the sequences 1, 0, 3, 3, 1 and 1, 3, 3, 0, 1 in float64
  arithmetic. The squared deviations are added in the order of the sequence, and the
  two sums round differently.
\<close>

lemmas binary64_eval =
  binary64_def ilog2_def pow2_def round_half_even_def bit_length.simps
  float_overflow_bound_def Let_def

text \<open>
  Some values of the rounding: one tenth; two ties, which go to the even mantissa; half
  of the least positive float64, which goes to zero; the largest float64 and the first
  real number that goes to infinity.
\<close>

lemma binary64_examples:
  "binary64 (1 / 10) = Fin (3602879701896397 / 36028797018963968)"
  "binary64 (2 ^ 53 + 1) = Fin (2 ^ 53)"
  "binary64 (2 ^ 53 + 3) = Fin (2 ^ 53 + 4)"
  "binary64 (1 / 2 ^ 1075) = Fin 0"
  "binary64 (2 ^ 1024 - 2 ^ 970 - 1) = Fin (2 ^ 1024 - 2 ^ 971)"
  "binary64 (2 ^ 1024 - 2 ^ 970) = PInf"
  by (simp_all add: binary64_eval)

lemma round_half_even_near:
  assumes "of_int k - 1 / 2 < y" and "y < of_int k + 1 / 2"
  shows "round_half_even y = k"
proof (cases "of_int k \<le> y")
  case True
  with assms have "\<lfloor>y\<rfloor> = k" by (intro floor_unique) auto
  with assms show ?thesis by (simp add: round_half_even_def)
next
  case False
  with assms have "\<lfloor>y\<rfloor> = k - 1" by (intro floor_unique) auto
  with assms show ?thesis by (simp add: round_half_even_def)
qed

lemma binary64_sqrt:
  assumes "1 \<le> v" and "v < 4" and "0 < k"
    and lo: "((of_int k - 1 / 2) / 2 ^ 52)\<^sup>2 < v"
    and hi: "v < ((of_int k + 1 / 2) / 2 ^ 52)\<^sup>2"
  shows "binary64 (sqrt v) = Fin (of_int k / 2 ^ 52)"
proof -
  have s1: "1 \<le> sqrt v" using assms(1) by simp
  have "sqrt v < sqrt 4" using assms(2) by (simp only: real_sqrt_less_iff)
  then have s2: "sqrt v < 2" by simp
  have fl: "\<lfloor>sqrt v\<rfloor> = 1" using s1 s2 by (intro floor_unique) auto
  have il: "ilog2 \<bar>sqrt v\<bar> = 0"
    using s1 by (simp add: ilog2_def fl bit_length.simps)
  have "(of_int k - 1 / 2) / 2 ^ 52 < sqrt v"
    using lo by (rule real_less_rsqrt)
  then have a: "of_int k - 1 / 2 < sqrt v * 2 ^ 52"
    by (simp add: field_simps)
  have "0 \<le> (of_int k + 1 / 2) / (2 ^ 52 :: real)" using assms(3) by simp
  with hi have "sqrt v < (of_int k + 1 / 2) / 2 ^ 52"
    by (intro real_less_lsqrt) auto
  then have b: "sqrt v * 2 ^ 52 < of_int k + 1 / 2"
    by (simp add: field_simps)
  have r: "round_half_even (sqrt v * 2 ^ 52) = k"
    using a b by (rule round_half_even_near)
  have nz: "sqrt v \<noteq> 0" using s1 by auto
  have small: "\<not> float_overflow_bound \<le> \<bar>sqrt v\<bar>"
    using s1 s2 by (simp add: float_overflow_bound_def)
  from assms(1) have vnz: "v \<noteq> 0" by auto
  show ?thesis
    using r small by (simp add: binary64_def vnz il pow2_def)
qed

lemma variance_first: "np_var binary64 [1, 0, 3, 3, 1] 0 = Fin (6485183463413515 / 4503599627370496)"
  by (simp add: np_var_def np_sum_def pairwise_sum.simps as_float_def fsub_def binary64_eval)

lemma variance_second: "np_var binary64 [1, 3, 3, 0, 1] 0 = Fin (3242591731706757 / 2251799813685248)"
  by (simp add: np_var_def np_sum_def pairwise_sum.simps as_float_def fsub_def binary64_eval)

lemma deviation_first: "np_std binary64 [1, 0, 3, 3, 1] = Fin (5404319552844596 / 4503599627370496)"
  unfolding np_std_def variance_first
  using binary64_sqrt [of "6485183463413515 / 4503599627370496" 5404319552844596]
  by (simp add: power2_eq_square)

lemma deviation_second: "np_std binary64 [1, 3, 3, 0, 1] = Fin (5404319552844595 / 4503599627370496)"
  unfolding np_std_def variance_second
  using binary64_sqrt [of "3242591731706757 / 2251799813685248" 5404319552844595]
  by (simp add: power2_eq_square)

lemma mean_first: "np_mean binary64 [1, 0, 3, 3, 1] = Fin (3602879701896397 / 2251799813685248)"
  by (simp add: np_mean_def np_sum_def pairwise_sum.simps as_float_def binary64_eval)

lemma statistics_first:
  "calculate_statistics binary64 [1, 0, 3, 3, 1] 2 =
     Inr \<lparr>mean = Fin (3602879701896397 / 2251799813685248), theoretical_mean = Fin (3 / 2),
          std_dev = Fin (5404319552844596 / 4503599627370496), min_stat = 0, max_stat = 3,
          unique_values = 3, total_samples = 5\<rparr>"
proof -
  have pw: "py_pow2 2 = Inr (PyInt 4)" by (simp add: py_pow2_def)
  have th: "py_truediv_int binary64 (py_sub_int binary64 (PyInt 4) 1) 2 = Inr (Fin (3 / 2))"
    by (simp add: py_truediv_int_def py_sub_int_def binary64_eval)
  show ?thesis
    unfolding calculate_statistics_def calculate_statistics_run_def pw
    by (simp add: th deviation_first mean_first)
qed

lemma mean_second: "np_mean binary64 [1, 3, 3, 0, 1] = Fin (3602879701896397 / 2251799813685248)"
  by (simp add: np_mean_def np_sum_def pairwise_sum.simps as_float_def binary64_eval)

lemma statistics_second:
  "calculate_statistics binary64 [1, 3, 3, 0, 1] 2 =
     Inr \<lparr>mean = Fin (3602879701896397 / 2251799813685248), theoretical_mean = Fin (3 / 2),
          std_dev = Fin (5404319552844595 / 4503599627370496), min_stat = 0, max_stat = 3,
          unique_values = 3, total_samples = 5\<rparr>"
proof -
  have pw: "py_pow2 2 = Inr (PyInt 4)" by (simp add: py_pow2_def)
  have th: "py_truediv_int binary64 (py_sub_int binary64 (PyInt 4) 1) 2 = Inr (Fin (3 / 2))"
    by (simp add: py_truediv_int_def py_sub_int_def binary64_eval)
  show ?thesis
    unfolding calculate_statistics_def calculate_statistics_run_def pw
    by (simp add: th deviation_second mean_second)
qed

section \<open>The claims\<close>

subsection \<open>The chi-square statistic and its p-value\<close>

text \<open>
  C1. For a bit width of at least 1 and a non-empty sequence of integers in
  \<open>[0, 2^n - 1]\<close>, \<open>chi_square_test\<close> returns the statistic
  \<open>\<Sum>i<K. (O i - E)\<^sup>2 / E\<close> over all \<open>K = 2^n\<close> bins, where \<open>O i\<close> counts the occurrences
  of \<open>i\<close> in the sequence (zero for a value that does not occur) and \<open>E = N / K\<close>,
  and the p-value \<open>1 - cdf statistic (K - 1)\<close>. The formula is stated in exact
  arithmetic.
\<close>

theorem chi_square_statistic:
  assumes "1 \<le> n" and "data \<noteq> []"
    and "\<forall>x\<in>set data. 0 \<le> x \<and> x \<le> 2 ^ nat n - 1"
  shows "chi_square_test exact cdf data n =
    Inr (Fin (\<Sum>i<2 ^ nat n. (real (count_list data (int i)) - real (length data) / 2 ^ nat n)\<^sup>2
                  / (real (length data) / 2 ^ nat n)),
         fsub exact (Fin 1)
           (cdf (Fin (\<Sum>i<2 ^ nat n. (real (count_list data (int i)) - real (length data) / 2 ^ nat n)\<^sup>2
                  / (real (length data) / 2 ^ nat n)))
              (2 ^ nat n - 1)))"
  using assms chi_square_in_range [of n data cdf] by simp

text \<open>
  The hypotheses hold for two bits and the sequence 0, 0, 1, 3: the counts are
  2, 1, 0, 1 against an expectation of 1, so the statistic is 2.
\<close>

theorem chi_square_statistic_witness:
  "chi_square_test exact chi2_cdf [0, 0, 1, 3] 2 =
     Inr (Fin 2, fsub exact (Fin 1) (chi2_cdf (Fin 2) 3))"
  using chi_square_statistic [of 2 "[0, 0, 1, 3]" chi2_cdf]
  by (simp add: eval_nat_numeral)

subsection \<open>No check of an empty sequence or of the bit width\<close>




subsection \<open>No emptiness check in the statistics\<close>




subsection \<open>What makes the expansion loop fail\<close>

text \<open>
  C4, as the code behaves. The loop fails, with the ValueError of \<^verbatim>\<open>int\<close>, whenever
  some key is not a base-2 integer literal. It does not fail for a key that is a
  non-empty string of binary digits, whatever the length of the key and whatever the
  sign of the counts.
\<close>

theorem expand_fails_on_rejected_key:
  "((\<exists>(k, c)\<in>set fm. py_int_base2 k = Inl invalid_literal) \<longrightarrow>
      expand_loop fm [] = Inl invalid_literal) \<and>
   ((\<forall>(k, c)\<in>set fm. binary_digits k \<and> k \<noteq> []) \<longrightarrow>
      (\<exists>xs. expand_loop fm [] = Inr xs))"
proof -
  have fails: "expand_loop fm [] = Inl invalid_literal"
    if "\<exists>(k, c)\<in>set fm. py_int_base2 k = Inl invalid_literal"
  proof -
    from that have "\<exists>p\<in>set fm. py_int_base2 (fst p) = Inl invalid_literal"
      by (auto simp: split_def)
    then show ?thesis by (rule expand_loop_unparseable)
  qed
  have runs: "\<exists>xs. expand_loop fm [] = Inr xs"
    if "\<forall>(k, c)\<in>set fm. binary_digits k \<and> k \<noteq> []"
  proof -
    from that have "\<forall>p\<in>set fm. py_int_base2 (fst p) = Inr (pattern_value (fst p))"
      by (auto simp: py_int_base2_pattern)
    from expand_loop_parsed [OF this, of "[]"] show ?thesis by simp
  qed
  from fails runs show ?thesis by blast
qed

text \<open>
  Both cases at concrete arguments: the key \<open>2\<close> is rejected; the three-digit key and
  the negative count are accepted.
\<close>

theorem expand_fails_on_rejected_key_witness:
  "py_int_base2 ''2'' = Inl invalid_literal \<and>
   expand_loop [(''01'', 1), (''2'', 1)] [] = Inl invalid_literal \<and>
   expand_loop [(''101'', 1), (''01'', - 3)] [] = Inr [5]"
  using expand_fails_on_rejected_key [of "[(''01'', 1), (''2'', 1)]"]
    expand_fails_on_rejected_key [of "[(''101'', 1), (''01'', - 3)]"]
  by (simp add: py_int_base2_def skip_sign_def skip_prefix_def py_isspace_def
      py_list_repeat_def binary_digits_def)

text \<open>
  The claim as written fails, with two bits: the key \<open>101\<close> is not a pattern of two
  digits and the loop returns its value 5; the count \<open>- 3\<close> is negative and the loop
  returns the empty sequence.
\<close>

theorem expand_validates_counterexample:
  "\<not> bit_pattern 2 ''101'' \<and>
   expand_loop [(''101'', 1)] [] = Inr [5] \<and>
   expand_loop [(''01'', - 3)] [] = Inr []"
  by (simp add: bit_pattern_def py_int_base2_def skip_sign_def skip_prefix_def py_isspace_def
      py_list_repeat_def)

subsection \<open>Length and range of the expanded sequence\<close>

text \<open>
  C5. When every key is a bit pattern and the counts are non-negative with sum \<open>s\<close>,
  the loop returns a sequence of length \<open>s\<close>: for each pair in turn, as many copies of
  the pattern's value as its count says.
\<close>

theorem expand_length:
  assumes "\<forall>(k, c)\<in>set fm. binary_digits k \<and> k \<noteq> [] \<and> 0 \<le> c"
    and "sum_list (map snd fm) = s"
  shows "\<exists>xs. expand_loop fm [] = Inr xs \<and> int (length xs) = s \<and>
              xs = concat (map (\<lambda>(k, c). replicate (nat c) (pattern_value k)) fm)"
proof -
  from assms(1) have "\<forall>p\<in>set fm. py_int_base2 (fst p) = Inr (pattern_value (fst p))"
    by (auto simp: py_int_base2_pattern)
  from expand_loop_parsed [OF this, of "[]"]
  have run: "expand_loop fm [] =
      Inr (concat (map (\<lambda>p. replicate (nat (snd p)) (pattern_value (fst p))) fm))"
    by simp
  from assms(1) have eq: "map (\<lambda>p. max (snd p) 0) fm = map snd fm"
    by (auto simp: max_def)
  have "(\<Sum>p\<leftarrow>fm. max (snd p) 0) = s"
    unfolding eq by (rule assms(2))
  with run length_concat_replicate [of "\<lambda>p. pattern_value (fst p)" fm]
  show ?thesis by (simp add: split_def)
qed

text \<open>
  Two copies of the value of \<open>01\<close> and one of the value of \<open>11\<close>.
\<close>

theorem expand_length_witness:
  "expand_loop [(''01'', 2), (''11'', 1)] [] = Inr [1, 1, 3]"
  using expand_length [of "[(''01'', 2), (''11'', 1)]" 3]
  by (simp add: binary_digits_def pattern_value_def add_bit_def eval_nat_numeral)

text \<open>
  C6. When every key is a bit pattern of exactly \<open>n\<close> digits, every value of a
  returned sequence lies between 0 and \<open>2^n - 1\<close>; and for \<open>n\<close> of at least 1 a
  sequence is returned. (For \<open>n = 0\<close> the only pattern is the empty string, which
  \<^verbatim>\<open>int\<close> rejects.)
\<close>

theorem expand_range:
  assumes "\<forall>(k, c)\<in>set fm. bit_pattern n k"
  shows "(\<forall>xs. expand_loop fm [] = Inr xs \<longrightarrow> (\<forall>x\<in>set xs. 0 \<le> x \<and> x \<le> 2 ^ n - 1)) \<and>
         (1 \<le> n \<longrightarrow> (\<exists>xs. expand_loop fm [] = Inr xs))"
proof (cases "n = 0")
  case True
  show ?thesis
  proof (cases fm)
    case Nil
    with True show ?thesis by simp
  next
    case (Cons p ps)
    with assms True have "fst p = []" by (auto simp: bit_pattern_def)
    then have "py_int_base2 (fst p) = Inl invalid_literal"
      by (simp add: py_int_base2_def skip_sign_def skip_prefix_def)
    with Cons have "\<exists>p\<in>set fm. py_int_base2 (fst p) = Inl invalid_literal" by auto
    from expand_loop_unparseable [OF this, of "[]"] True show ?thesis by simp
  qed
next
  case False
  with assms have pat: "\<forall>p\<in>set fm. binary_digits (fst p) \<and> fst p \<noteq> [] \<and> length (fst p) = n"
    by (auto simp: bit_pattern_def)
  then have "\<forall>p\<in>set fm. py_int_base2 (fst p) = Inr (pattern_value (fst p))"
    by (auto intro: py_int_base2_pattern)
  from expand_loop_parsed [OF this, of "[]"]
  have run: "expand_loop fm [] =
      Inr (concat (map (\<lambda>p. replicate (nat (snd p)) (pattern_value (fst p))) fm))"
    by simp
  have "0 \<le> x \<and> x \<le> 2 ^ n - 1"
    if "x \<in> set (concat (map (\<lambda>p. replicate (nat (snd p)) (pattern_value (fst p))) fm))" for x
  proof -
    from that obtain p where p: "p \<in> set fm" and x: "x = pattern_value (fst p)"
      by (auto split: if_splits)
    from pat p have "binary_digits (fst p)" "length (fst p) = n" by auto
    with pattern_value_bounds [of "fst p"] x show ?thesis by simp
  qed
  with run show ?thesis by simp
qed

text \<open>
  Two-digit keys give values between 0 and 3.
\<close>

theorem expand_range_witness:
  "bit_pattern 2 ''01'' \<and> bit_pattern 2 ''11'' \<and>
   expand_loop [(''01'', 2), (''11'', 1)] [] = Inr [1, 1, 3] \<and>
   (0::int) \<le> 1 \<and> (1::int) \<le> 2 ^ 2 - 1 \<and> (0::int) \<le> 3 \<and> (3::int) \<le> 2 ^ 2 - 1"
proof -
  have run: "expand_loop [(''01'', 2), (''11'', 1)] [] = Inr [1, 1, 3]"
    by (simp add: py_int_base2_def skip_sign_def skip_prefix_def py_isspace_def
        py_list_repeat_def eval_nat_numeral)
  have pat: "\<forall>(k, c)\<in>set [(''01'', 2 :: int), (''11'', 1)]. bit_pattern 2 k"
    by (simp add: bit_pattern_def binary_digits_def)
  from expand_range [OF pat] run pat show ?thesis by simp
qed

subsection \<open>Standard deviation and theoretical mean\<close>

text \<open>
  C7. On a non-empty sequence, with a bit width from \<open>- 1074\<close> to 1024,
  \<open>calculate_statistics\<close> returns a record whose \<open>std_dev\<close> is the population standard
  deviation, the square root of the sum of the squared deviations from the mean divided
  by \<open>N\<close> (not by \<open>N - 1\<close>), and whose \<open>theoretical_mean\<close> is \<open>(2^n - 1) / 2\<close>, an
  expression in which the sequence does not occur. Both are stated in exact arithmetic.
  Above 1024 the division \<^verbatim>\<open>max_value / 2\<close> raises OverflowError; below \<open>- 1074\<close>
  the power \<^verbatim>\<open>2**num_qubits\<close> is no longer \<open>2^n\<close>.
\<close>

theorem std_dev_population:
  assumes "data \<noteq> []" and "- 1074 \<le> n" and "n \<le> 1024"
  shows "\<exists>r. calculate_statistics exact data n = Inr r \<and>
    std_dev r =
      Fin (sqrt ((\<Sum>x\<leftarrow>data. (real_of_int x - real_of_int (sum_list data) / real (length data))\<^sup>2)
                 / real (length data))) \<and>
    theoretical_mean r = Fin ((2 powi n - 1) / 2)"
  using assms
  by (simp add: calculate_statistics_def calculate_statistics_run_nonempty np_std_eq)

text \<open>
  For the sequence 0, 2 the deviations are 1 and 1: divided by 2 the standard deviation
  is 1 (divided by 1 it would be the square root of 2).
\<close>

theorem std_dev_population_witness:
  "[0, 2 :: int] \<noteq> [] \<and>
   (\<exists>r. calculate_statistics exact [0, 2] 2 = Inr r \<and> std_dev r = Fin 1 \<and>
        theoretical_mean r = Fin (3 / 2))"
  using std_dev_population [of "[0, 2]" 2] by simp

subsection \<open>The perfectly uniform sample\<close>

text \<open>
  C8. With two bits, a sequence of length 8 in which each of 0, 1, 2, 3 occurs twice
  has the statistic 0 and the p-value 1. What is used of SciPy's distribution function
  is its value 0 at the statistic 0.
\<close>

theorem chi_square_uniform_exact:
  assumes "length data = 8"
    and "count_list data 0 = 2 \<and> count_list data 1 = 2 \<and>
         count_list data 2 = 2 \<and> count_list data 3 = 2"
    and "cdf (Fin 0) 3 = Fin 0"
  shows "chi_square_test exact cdf data 2 = Inr (Fin 0, Fin 1)"
proof -
  from assms(1,2) have "set data \<subseteq> {0, 1, 2, 3}"
    by (intro counts_cover) simp_all
  then have rng: "\<forall>x\<in>set data. 0 \<le> x \<and> x \<le> 2 ^ nat 2 - 1"
    by auto
  from assms(1) have ne: "data \<noteq> []" by auto
  have four: "{..<4::nat} = {0, 1, 2, 3}" by auto
  from chi_square_in_range [OF _ ne rng, of cdf] assms
  show ?thesis
    by (simp add: four fsub_Fin)
qed

text \<open>
  The sequence 0, 0, 1, 1, 2, 2, 3, 3 with the chi-square distribution function.
\<close>

theorem chi_square_uniform_exact_witness:
  "chi_square_test exact chi2_cdf [0, 0, 1, 1, 2, 2, 3, 3] 2 = Inr (Fin 0, Fin 1)"
  using chi_square_uniform_exact [of "[0, 0, 1, 1, 2, 2, 3, 3]" chi2_cdf]
  by (simp add: chi2_cdf_def)

subsection \<open>Order invariance\<close>

text \<open>
  C9, as the code behaves. For two sequences that are permutations of each other (they
  have the same multiset of elements), \<open>chi_square_test\<close> returns the same result,
  whatever the rounding: it reads the sequence only through its counts and its length.
  \<open>calculate_statistics\<close> returns the same result in exact arithmetic, and with any
  rounding it fails or succeeds alike and agrees in the theoretical mean, the minimum,
  the maximum and the two counts.
\<close>

theorem order_invariance:
  assumes "mset xs = mset ys"
  shows "chi_square_test rnd cdf xs n = chi_square_test rnd cdf ys n \<and>
         calculate_statistics exact xs n = calculate_statistics exact ys n \<and>
         map_sum id order_free_fields (calculate_statistics rnd xs n) =
           map_sum id order_free_fields (calculate_statistics rnd ys n)"
  using assms chi_square_test_mset calculate_statistics_mset_exact
    calculate_statistics_mset_fields by blast

text \<open>
  The sequences 1, 0, 3, 3, 1 and 1, 3, 3, 0, 1 in float64 arithmetic.
\<close>

theorem order_invariance_witness:
  "mset [1, 0, 3, 3, 1 :: int] = mset [1, 3, 3, 0, 1] \<and>
   chi_square_test binary64 chi2_cdf [1, 0, 3, 3, 1] 2 =
     chi_square_test binary64 chi2_cdf [1, 3, 3, 0, 1] 2 \<and>
   calculate_statistics exact [1, 0, 3, 3, 1] 2 = calculate_statistics exact [1, 3, 3, 0, 1] 2 \<and>
   map_sum id order_free_fields (calculate_statistics binary64 [1, 0, 3, 3, 1] 2) =
     map_sum id order_free_fields (calculate_statistics binary64 [1, 3, 3, 0, 1] 2)"
proof -
  have h: "mset [1, 0, 3, 3, 1 :: int] = mset [1, 3, 3, 0, 1]" by simp
  from order_invariance [OF h] h show ?thesis by blast
qed

text \<open>
  The claim as written fails in float64 arithmetic: the two sequences are permutations
  of each other, and \<open>calculate_statistics\<close> returns the standard deviation
  1.2000000000000002 for the first and 1.2 for the second (the mantissas
  5404319552844596 and 5404319552844595 over \<open>2^52\<close>).
\<close>

theorem order_invariance_counterexample:
  "mset [1, 0, 3, 3, 1 :: int] = mset [1, 3, 3, 0, 1] \<and>
   calculate_statistics binary64 [1, 0, 3, 3, 1] 2 =
     Inr \<lparr>mean = Fin (3602879701896397 / 2251799813685248), theoretical_mean = Fin (3 / 2),
          std_dev = Fin (5404319552844596 / 4503599627370496), min_stat = 0, max_stat = 3,
          unique_values = 3, total_samples = 5\<rparr> \<and>
   calculate_statistics binary64 [1, 3, 3, 0, 1] 2 =
     Inr \<lparr>mean = Fin (3602879701896397 / 2251799813685248), theoretical_mean = Fin (3 / 2),
          std_dev = Fin (5404319552844595 / 4503599627370496), min_stat = 0, max_stat = 3,
          unique_values = 3, total_samples = 5\<rparr> \<and>
   calculate_statistics binary64 [1, 0, 3, 3, 1] 2 \<noteq> calculate_statistics binary64 [1, 3, 3, 0, 1] 2"
  by (simp add: statistics_first statistics_second)

subsection \<open>The expansion loop validates nothing\<close>

text \<open>
  C10. The loop has no parameter for the bit width and never looks at the length of a
  key or at the sign of a count. If it fails, the error is the one of \<^verbatim>\<open>int\<close> and some
  key is rejected by \<^verbatim>\<open>int\<close>. If \<^verbatim>\<open>int\<close> accepts every key, the loop returns a
  sequence whose length is the sum of \<open>max c 0\<close> over the counts \<open>c\<close>. A pair whose
  count is zero or negative and whose key is accepted leaves the sequence as it is.
\<close>

theorem expand_unvalidated:
  "(\<forall>e. expand_loop fm [] = Inl e \<longrightarrow>
      e = invalid_literal \<and> (\<exists>(k, c)\<in>set fm. py_int_base2 k = Inl invalid_literal)) \<and>
   ((\<forall>(k, c)\<in>set fm. \<exists>v. py_int_base2 k = Inr v) \<longrightarrow>
      (\<exists>xs. expand_loop fm [] = Inr xs \<and> int (length xs) = (\<Sum>(k, c)\<leftarrow>fm. max c 0))) \<and>
   (\<forall>k c v rest acc. c \<le> 0 \<longrightarrow> py_int_base2 k = Inr v \<longrightarrow>
      expand_loop ((k, c) # rest) acc = expand_loop rest acc)"
proof -
  have fails: "e = invalid_literal \<and> (\<exists>(k, c)\<in>set fm. py_int_base2 k = Inl invalid_literal)"
    if "expand_loop fm [] = Inl e" for e
    using expand_loop_error [OF that] by (auto simp: case_prod_beta)
  have runs: "\<exists>xs. expand_loop fm [] = Inr xs \<and> int (length xs) = (\<Sum>(k, c)\<leftarrow>fm. max c 0)"
    if "\<forall>(k, c)\<in>set fm. \<exists>v. py_int_base2 k = Inr v"
  proof -
    from that have "\<forall>p\<in>set fm. py_int_base2 (fst p) = Inr (projr (py_int_base2 (fst p)))"
      by auto
    from expand_loop_parsed [OF this, of "[]"]
      length_concat_replicate [of "\<lambda>p. projr (py_int_base2 (fst p))" fm]
    show ?thesis by (simp add: split_def)
  qed
  have skips: "expand_loop ((k, c) # rest) acc = expand_loop rest acc"
    if "c \<le> 0" "py_int_base2 k = Inr v" for k c v rest acc
    using that by (simp add: py_list_repeat_def)
  from fails runs skips show ?thesis by blast
qed

text \<open>
  A rejected key makes the loop fail. A five-digit key and a negative count: \<^verbatim>\<open>int\<close>
  accepts both keys, and the sequence has length \<open>2 + 0\<close>. A pair with the count
  \<open>- 3\<close> in front changes nothing.
\<close>

theorem expand_unvalidated_witness:
  "expand_loop [(''2'', 1)] [] = Inl invalid_literal \<and>
   py_int_base2 ''2'' = Inl invalid_literal \<and>
   py_int_base2 ''10110'' = Inr 22 \<and> py_int_base2 ''01'' = Inr 1 \<and>
   expand_loop [(''10110'', 2), (''01'', - 3)] [] = Inr [22, 22] \<and>
   int (length [22, 22 :: int]) = max 2 0 + max (- 3) 0 \<and>
   expand_loop [(''01'', - 3), (''11'', 1)] [7] = expand_loop [(''11'', 1)] [7]"
  using expand_unvalidated [of "[(''2'', 1)]"]
    expand_unvalidated [of "[(''10110'', 2), (''01'', - 3)]"]
  by (simp add: py_int_base2_def skip_sign_def skip_prefix_def py_isspace_def
      py_list_repeat_def eval_nat_numeral)

end
